theory Spec2Isabelle
  imports Main "HOL-Library.Sublist"
begin

section \<open>The bulk downloader \<^verbatim>\<open>kiwix-downloader.py\<close>\<close>

text \<open>
  A shallow embedding of \<^verbatim>\<open>src/kiwix-downloader.py\<close>. Pure helpers are HOL functions.
  \<^verbatim>\<open>download_file\<close> reads and writes the file system, the shared \<^verbatim>\<open>progress\<close>
  dictionary and the persisted ledger; it is a function from a world to a result and a
  new world. Whatever lies outside the program (the URL parser, the hash, the server, the
  disk refusing a file) is a field of an environment record, so every theorem that
  quantifies over the environment holds for every behaviour of the outside. Every
  interaction with the outside is appended to a trace.
\<close>

subsection \<open>Constants\<close>

definition RETRY_COUNT :: nat where
  "RETRY_COUNT = 3"

subsection \<open>Exceptions\<close>

text \<open>
  The exceptions the program meets that are not a \<^verbatim>\<open>requests.RequestException\<close>, each
  with its message: \<^verbatim>\<open>except requests.RequestException\<close> lets them pass,
  \<^verbatim>\<open>except Exception\<close> catches them. \<open>str_exn\<close> is \<^verbatim>\<open>str(e)\<close>.
\<close>

datatype exn =
    ValueError string
  | OSError string
  | JSONDecodeError string

fun str_exn :: "exn \<Rightarrow> string" where
  "str_exn (ValueError m) = m"
| "str_exn (OSError m) = m"
| "str_exn (JSONDecodeError m) = m"

subsection \<open>Library functions on strings and paths\<close>

text \<open>\<^verbatim>\<open>s.rfind(c)\<close>: the highest index of \<open>c\<close> in \<open>s\<close>, or \<open>-1\<close>.\<close>

fun rfind :: "char \<Rightarrow> string \<Rightarrow> int" where
  "rfind c [] = - 1"
| "rfind c (x # xs) =
     (let r = rfind c xs
      in if 0 \<le> r then r + 1 else if x = c then 0 else - 1)"

text \<open>
  \<^verbatim>\<open>os.path.basename\<close> of \<^verbatim>\<open>posixpath\<close>:
  \<^verbatim>\<open>i = p.rfind('/') + 1; return p[i:]\<close>.
\<close>

definition basename :: "string \<Rightarrow> string" where
  "basename p = drop (nat (rfind (CHR ''/'') p + 1)) p"

text \<open>
  \<^verbatim>\<open>os.path.join(a, b)\<close> of \<^verbatim>\<open>posixpath\<close> for two components: an absolute
  \<open>b\<close> replaces \<open>a\<close>; otherwise \<open>b\<close> is appended, after a separator unless \<open>a\<close> is empty
  or already ends with one.
\<close>

definition path_join :: "string \<Rightarrow> string \<Rightarrow> string" where
  "path_join a b =
     (if take 1 b = ''/'' then b
      else if a = [] \<or> last a = CHR ''/'' then a @ b
      else a @ ''/'' @ b)"

text \<open>Decimal digits of a natural number, as the f-string \<^verbatim>\<open>f'{initial_pos}'\<close> prints it.\<close>

definition digit_char :: "nat \<Rightarrow> char" where
  "digit_char d = ''0123456789'' ! d"

fun str_nat :: "nat \<Rightarrow> string" where
  "str_nat n =
     (if n < 10 then [digit_char n] else str_nat (n div 10) @ [digit_char (n mod 10)])"

declare str_nat.simps [simp del]

subsection \<open>The outside world\<close>

type_synonym headers = "(string \<times> string) list"

datatype file_mode = WB | AB

text \<open>
  The \<^verbatim>\<open>content-length\<close> header of a response, by what
  \<^verbatim>\<open>int(response.headers.get('content-length', 0))\<close> does with it: the header is
  absent (the default 0 is used), holds an integer, or holds text \<^verbatim>\<open>int\<close> rejects
  with a \<^verbatim>\<open>ValueError\<close>.
\<close>

datatype content_length = NoHeader | IntHeader int | BadHeader

text \<open>
  A response: its status code, its \<^verbatim>\<open>content-length\<close>, the chunks
  \<^verbatim>\<open>iter_content\<close> yields and, when the stream breaks after them, the message of the
  \<^verbatim>\<open>RequestException\<close> that \<^verbatim>\<open>iter_content\<close> then raises.
\<close>

record response =
  status_code :: nat
  content_length :: content_length
  chunks :: "string list"
  stream_error :: "string option"

text \<open>
  \<^verbatim>\<open>requests.get\<close> raises a \<^verbatim>\<open>RequestException\<close> (connection error, timeout) or
  returns a response.
\<close>

datatype http_result = GetRaises string | Response response

text \<open>The three places of \<^verbatim>\<open>download_file\<close> that call \<^verbatim>\<open>save_progress\<close>.\<close>

datatype save_site = AfterSuccess | AfterRetries | InHandler

text \<open>
  The environment. \<open>urlparse_path url\<close> is the \<^verbatim>\<open>path\<close> of \<^verbatim>\<open>urlparse(url)\<close>, or the
  \<^verbatim>\<open>ValueError\<close> it raises; \<open>md5_hexdigest url\<close> is
  \<^verbatim>\<open>hashlib.md5(url.encode()).hexdigest()\<close>; \<open>http_get url i hdrs\<close> is what the request
  of attempt \<open>i\<close> meets; \<open>open_ok path i\<close> says whether \<^verbatim>\<open>open(filepath, mode)\<close> of
  attempt \<open>i\<close> succeeds; \<open>save_ok url site\<close> says whether the write of the persisted
  ledger at that place succeeds.
\<close>

record env =
  urlparse_path :: "string \<Rightarrow> exn + string"
  md5_hexdigest :: "string \<Rightarrow> string"
  http_get :: "string \<Rightarrow> nat \<Rightarrow> headers \<Rightarrow> http_result"
  open_ok :: "string \<Rightarrow> nat \<Rightarrow> bool"
  save_ok :: "string \<Rightarrow> save_site \<Rightarrow> bool"

text \<open>The \<^verbatim>\<open>progress\<close> dictionary: URL to status string.\<close>

type_synonym ledger = "string \<rightharpoonup> string"

text \<open>
  The file \<^verbatim>\<open>PROGRESS_FILE\<close>, by what \<^verbatim>\<open>load_progress\<close> meets: no file, a file
  \<^verbatim>\<open>json.load\<close> rejects, or a file holding a mapping.
\<close>

datatype ledger_file = Missing | Malformed | Stored ledger

datatype event =
    HttpGet string headers
  | FileOpen string file_mode
  | FileWrite string string
  | Sleep nat
  | LedgerSet string string
  | LockAcquire
  | LedgerWrite
  | LockRelease

record world =
  files :: "string \<rightharpoonup> string"
  progress :: ledger
  persisted :: ledger_file
  trace :: "event list"

definition emit :: "event \<Rightarrow> world \<Rightarrow> world" where
  "emit e w = w\<lparr>trace := trace w @ [e]\<rparr>"

subsection \<open>\<^verbatim>\<open>get_filename_from_url\<close>\<close>

definition get_filename_from_url :: "env \<Rightarrow> string \<Rightarrow> exn + string" where
  "get_filename_from_url env url =
     (case urlparse_path env url of
        Inl e \<Rightarrow> Inl e
      | Inr parsed_path \<Rightarrow>
          (let filename = basename parsed_path
           in Inr (if filename \<noteq> [] then filename
                   else ''unnamed_file_'' @ take 8 (md5_hexdigest env url))))"

subsection \<open>\<^verbatim>\<open>load_progress\<close> and \<^verbatim>\<open>save_progress\<close>\<close>

definition load_progress :: "ledger_file \<Rightarrow> exn + ledger" where
  "load_progress f =
     (case f of
        Missing \<Rightarrow> Inr Map.empty
      | Malformed \<Rightarrow> Inl (JSONDecodeError ''Expecting value'')
      | Stored m \<Rightarrow> Inr m)"

text \<open>
  \<^verbatim>\<open>save_progress\<close> takes the lock, writes the whole dictionary and releases the lock;
  the \<^verbatim>\<open>with\<close> block releases it also when the write raises. A failed write leaves
  the file as it was.
\<close>

definition save_progress :: "env \<Rightarrow> string \<Rightarrow> save_site \<Rightarrow> world \<Rightarrow> (exn + unit) \<times> world" where
  "save_progress env url site w =
     (let w1 = emit LockAcquire w
      in if save_ok env url site
         then (Inr (), emit LockRelease (emit LedgerWrite (w1\<lparr>persisted := Stored (progress w1)\<rparr>)))
         else (Inl (OSError ''cannot write progress file''), emit LockRelease w1))"

text \<open>The assignment \<^verbatim>\<open>progress[url] = status\<close>.\<close>

definition set_progress :: "string \<Rightarrow> string \<Rightarrow> world \<Rightarrow> world" where
  "set_progress url status w =
     emit (LedgerSet url status) (w\<lparr>progress := (progress w)(url \<mapsto> status)\<rparr>)"

subsection \<open>\<^verbatim>\<open>download_file\<close>\<close>

text \<open>
  Lines 51 to 58: the headers, the file mode and the resume offset, fixed before the
  retry loop.
\<close>

definition plan :: "world \<Rightarrow> string \<Rightarrow> string \<Rightarrow> headers \<times> file_mode \<times> nat" where
  "plan w url filepath =
     (if progress w url \<noteq> None \<and> progress w url \<noteq> Some ''failed'' \<and> files w filepath \<noteq> None
      then (let initial_pos = (case files w filepath of None \<Rightarrow> 0 | Some content \<Rightarrow> length content)
            in ([(''Range'', ''bytes='' @ str_nat initial_pos @ ''-'')], AB, initial_pos))
      else ([], WB, 0))"

text \<open>
  \<^verbatim>\<open>open(filepath, mode)\<close>: \<^verbatim>\<open>'wb'\<close> creates or truncates, \<^verbatim>\<open>'ab'\<close> creates or
  keeps what is there.
\<close>

definition open_file :: "string \<Rightarrow> file_mode \<Rightarrow> world \<Rightarrow> world" where
  "open_file filepath mode w =
     emit (FileOpen filepath mode)
       (w\<lparr>files := (files w)(filepath \<mapsto>
            (case mode of
               WB \<Rightarrow> []
             | AB \<Rightarrow> (case files w filepath of None \<Rightarrow> [] | Some content \<Rightarrow> content)))\<rparr>)"

text \<open>The loop over \<^verbatim>\<open>iter_content\<close>: every non-empty chunk is written at the end of the file.\<close>

fun write_chunks :: "string \<Rightarrow> string list \<Rightarrow> world \<Rightarrow> world" where
  "write_chunks filepath [] w = w"
| "write_chunks filepath (chunk # rest) w =
     write_chunks filepath rest
       (if chunk \<noteq> []
        then emit (FileWrite filepath chunk)
               (w\<lparr>files := (files w)(filepath \<mapsto>
                    (case files w filepath of None \<Rightarrow> chunk | Some content \<Rightarrow> content @ chunk))\<rparr>)
        else w)"

text \<open>
  One pass through the body of the \<^verbatim>\<open>for\<close> loop (lines 61 to 85, the sleep apart):
  the download returned (\<open>Downloaded\<close>), a \<^verbatim>\<open>RequestException\<close> with the given
  message was caught by the inner \<^verbatim>\<open>except\<close> clause (\<open>Retry\<close>), or another exception
  left the loop (\<open>Raised\<close>). \<^verbatim>\<open>raise_for_status\<close> raises for the status codes 400
  to 599.
\<close>

datatype attempt_result = Downloaded | Retry string | Raised exn

definition attempt ::
  "env \<Rightarrow> string \<Rightarrow> string \<Rightarrow> headers \<Rightarrow> file_mode \<Rightarrow> nat \<Rightarrow> world \<Rightarrow> attempt_result \<times> world" where
  "attempt env url filepath hdrs mode i w =
     (let w1 = emit (HttpGet url hdrs) w
      in case http_get env url i hdrs of
           GetRaises msg \<Rightarrow> (Retry msg, w1)
         | Response r \<Rightarrow>
             if 400 \<le> status_code r \<and> status_code r < 600 then (Retry ''HTTPError'', w1)
             else if content_length r = BadHeader
             then (Raised (ValueError ''invalid literal for int()''), w1)
             else if \<not> open_ok env filepath i
             then (Raised (OSError ''cannot open target file''), w1)
             else
               (let w2 = write_chunks filepath (chunks r) (open_file filepath mode w1)
                in case stream_error r of
                     Some msg \<Rightarrow> (Retry msg, w2)
                   | None \<Rightarrow>
                       (case save_progress env url AfterSuccess (set_progress url ''completed'' w2) of
                          (Inl e, w3) \<Rightarrow> (Raised e, w3)
                        | (Inr u, w3) \<Rightarrow> (Downloaded, w3))))"

text \<open>
  The \<^verbatim>\<open>for attempt in range(RETRY_COUNT)\<close> loop, over the list of attempt indices left.
\<close>

datatype loop_result = Returned | Exhausted | Aborted exn

fun attempts ::
  "env \<Rightarrow> string \<Rightarrow> string \<Rightarrow> headers \<Rightarrow> file_mode \<Rightarrow> nat list \<Rightarrow> world \<Rightarrow> loop_result \<times> world" where
  "attempts env url filepath hdrs mode [] w = (Exhausted, w)"
| "attempts env url filepath hdrs mode (i # rest) w =
     (case attempt env url filepath hdrs mode i w of
        (Downloaded, w') \<Rightarrow> (Returned, w')
      | (Retry msg, w') \<Rightarrow> attempts env url filepath hdrs mode rest (emit (Sleep (2 ^ i)) w')
      | (Raised e, w') \<Rightarrow> (Aborted e, w'))"

text \<open>
  The outer \<^verbatim>\<open>try\<close> block (lines 48 to 90). \<open>Inl\<close> is an exception that reaches the
  outer handler; \<open>Inr\<close> is the pair a \<^verbatim>\<open>return\<close> gives, with \<open>None\<close> for Python's
  \<^verbatim>\<open>None\<close>.
\<close>

definition download_try ::
  "env \<Rightarrow> string \<Rightarrow> string \<Rightarrow> world \<Rightarrow> (exn + string \<times> string option) \<times> world" where
  "download_try env url download_dir w =
     (case get_filename_from_url env url of
        Inl e \<Rightarrow> (Inl e, w)
      | Inr filename \<Rightarrow>
          (let filepath = path_join download_dir filename;
               hdrs = fst (plan w url filepath);
               mode = fst (snd (plan w url filepath))
           in case attempts env url filepath hdrs mode [0..<RETRY_COUNT] w of
                (Returned, w') \<Rightarrow> (Inr (filename, None), w')
              | (Aborted e, w') \<Rightarrow> (Inl e, w')
              | (Exhausted, w') \<Rightarrow>
                  (case save_progress env url AfterRetries (set_progress url ''failed'' w') of
                     (Inl e, w2) \<Rightarrow> (Inl e, w2)
                   | (Inr u, w2) \<Rightarrow> (Inr (filename, Some ''Download failed after retries''), w2))))"

text \<open>
  The \<^verbatim>\<open>except Exception\<close> block (lines 92 to 96), entered with the exception \<open>e\<close>.
  An exception raised inside the block is not caught by anything: it reaches the caller,
  here as \<open>Inl\<close>.
\<close>

definition except_handler ::
  "env \<Rightarrow> string \<Rightarrow> exn \<Rightarrow> world \<Rightarrow> (exn + string \<times> string option) \<times> world" where
  "except_handler env url e w =
     (case save_progress env url InHandler (set_progress url ''failed'' w) of
        (Inl e2, w2) \<Rightarrow> (Inl e2, w2)
      | (Inr u, w2) \<Rightarrow> (Inr (url, Some (str_exn e)), w2))"

definition download_file ::
  "env \<Rightarrow> string \<Rightarrow> string \<Rightarrow> world \<Rightarrow> (exn + string \<times> string option) \<times> world" where
  "download_file env url download_dir w =
     (case download_try env url download_dir w of
        (Inr r, w') \<Rightarrow> (Inr r, w')
      | (Inl e, w') \<Rightarrow> except_handler env url e w')"

subsection \<open>\<^verbatim>\<open>main\<close>\<close>

text \<open>Line 108, the list comprehension.\<close>

definition remaining_urls :: "string list \<Rightarrow> ledger \<Rightarrow> string list" where
  "remaining_urls urls progress0 =
     [url \<leftarrow> urls. progress0 url = None \<or> progress0 url = Some ''failed'']"

text \<open>
  The file a task writes: \<^verbatim>\<open>os.path.join(download_dir, filename)\<close>, when the URL has
  a file name.
\<close>

definition target_path :: "env \<Rightarrow> string \<Rightarrow> string \<Rightarrow> exn + string" where
  "target_path env download_dir url =
     (case get_filename_from_url env url of
        Inl e \<Rightarrow> Inl e
      | Inr filename \<Rightarrow> Inr (path_join download_dir filename))"

text \<open>
  The submitted tasks, run one after the other in the order of submission: the schedule
  of the pool in which each task ends before the next one starts. All tasks share the
  one \<^verbatim>\<open>progress\<close> dictionary of the world.
\<close>

fun run_tasks ::
  "env \<Rightarrow> string \<Rightarrow> string list \<Rightarrow> world \<Rightarrow> (exn + string \<times> string option) list \<times> world" where
  "run_tasks env download_dir [] w = ([], w)"
| "run_tasks env download_dir (url # rest) w =
     (let r = download_file env url download_dir w;
          rs = run_tasks env download_dir rest (snd r)
      in (fst r # fst rs, snd rs))"

text \<open>
  \<^verbatim>\<open>main\<close> from line 105 on, for the URL list read: load the ledger (an exception of
  \<^verbatim>\<open>load_progress\<close> ends the program), filter, submit and run.
\<close>

definition main ::
  "env \<Rightarrow> string \<Rightarrow> string list \<Rightarrow> world \<Rightarrow> (exn + (exn + string \<times> string option) list) \<times> world" where
  "main env download_dir urls w =
     (case load_progress (persisted w) of
        Inl e \<Rightarrow> (Inl e, w)
      | Inr progress0 \<Rightarrow>
          (let rs = run_tasks env download_dir (remaining_urls urls progress0)
                      (w\<lparr>progress := progress0\<rparr>)
           in (Inr (fst rs), snd rs)))"

subsection \<open>Reading a trace\<close>

text \<open>The events a run has added to the trace.\<close>

definition new_events :: "world \<Rightarrow> world \<Rightarrow> event list" where
  "new_events w w' = drop (length (trace w)) (trace w')"

text \<open>Requests and back-off sleeps.\<close>

fun is_net :: "event \<Rightarrow> bool" where
  "is_net (HttpGet u h) = True"
| "is_net (Sleep n) = True"
| "is_net e = False"

text \<open>
  The event is about the given URL and target file, a request carries the given headers
  and an \<^verbatim>\<open>open\<close> has the given mode.
\<close>

fun uses_plan :: "string \<Rightarrow> string \<Rightarrow> headers \<Rightarrow> file_mode \<Rightarrow> event \<Rightarrow> bool" where
  "uses_plan url filepath hdrs mode (HttpGet u h) = (u = url \<and> h = hdrs)"
| "uses_plan url filepath hdrs mode (FileOpen p m) = (p = filepath \<and> m = mode)"
| "uses_plan url filepath hdrs mode (FileWrite p c) = (p = filepath)"
| "uses_plan url filepath hdrs mode (LedgerSet u s) = (u = url)"
| "uses_plan url filepath hdrs mode e = True"




text \<open>The events of one call of \<^verbatim>\<open>save_progress\<close>.\<close>

definition save_events :: "env \<Rightarrow> string \<Rightarrow> save_site \<Rightarrow> event list" where
  "save_events env url site =
     LockAcquire # (if save_ok env url site then [LedgerWrite, LockRelease] else [LockRelease])"

text \<open>
  Attempt \<open>i\<close> ends in a \<^verbatim>\<open>RequestException\<close>: \<^verbatim>\<open>requests.get\<close> raises,
  \<^verbatim>\<open>raise_for_status\<close> raises, or the body stream breaks (after the header was read
  and the file opened).
\<close>

definition request_fails :: "env \<Rightarrow> string \<Rightarrow> string \<Rightarrow> headers \<Rightarrow> nat \<Rightarrow> bool" where
  "request_fails env url filepath hdrs i =
     (case http_get env url i hdrs of
        GetRaises msg \<Rightarrow> True
      | Response r \<Rightarrow>
          (400 \<le> status_code r \<and> status_code r < 600) \<or>
          (content_length r \<noteq> BadHeader \<and> open_ok env filepath i \<and> stream_error r \<noteq> None))"

text \<open>Attempt \<open>i\<close> writes the whole body to the file.\<close>

definition request_succeeds :: "env \<Rightarrow> string \<Rightarrow> string \<Rightarrow> headers \<Rightarrow> nat \<Rightarrow> bool" where
  "request_succeeds env url filepath hdrs i =
     (case http_get env url i hdrs of
        GetRaises msg \<Rightarrow> False
      | Response r \<Rightarrow>
          \<not> (400 \<le> status_code r \<and> status_code r < 600) \<and>
          content_length r \<noteq> BadHeader \<and> open_ok env filepath i \<and> stream_error r = None)"

subsection \<open>Workers recording their outcome at the same time\<close>






subsection \<open>Example inputs\<close>

text \<open>
  What \<^verbatim>\<open>urlparse(url).path\<close> and \<^verbatim>\<open>hashlib.md5(url.encode()).hexdigest()\<close> give for
  the URLs of the examples. \<^verbatim>\<open>urlparse\<close> rejects \<^verbatim>\<open>http://[::1\<close> with
  \<^verbatim>\<open>ValueError: Invalid IPv6 URL\<close>; the table treats every URL it does not list the
  same way.
\<close>

definition lib_urlparse_path :: "string \<Rightarrow> exn + string" where
  "lib_urlparse_path url =
     (if url = ''http://h/a.zim'' then Inr ''/a.zim''
      else if url = ''http://g/a.zim'' then Inr ''/a.zim''
      else if url = ''http://h/b.zim'' then Inr ''/b.zim''
      else if url = ''http://h/'' then Inr ''/''
      else Inl (ValueError ''Invalid IPv6 URL''))"

definition lib_md5_hexdigest :: "string \<Rightarrow> string" where
  "lib_md5_hexdigest url =
     (if url = ''http://h/'' then ''3eb97db993daeb10a9d427baf5c2b7b2''
      else if url = ''http://h/a.zim'' then ''454d4fd9d6543c1bd0391e77f21b5833''
      else if url = ''http://g/a.zim'' then ''78729e852f014a20e8cb7769e64f5a70''
      else ''c367018b02a6a2fcd5db0fba154a8991'')"

text \<open>
  A server that sends the four bytes \<^verbatim>\<open>abcd\<close> in one chunk to a request without
  headers and answers 416 (range not satisfiable) to any other; every file opens and
  every write of the ledger succeeds.
\<close>

definition env_up :: env where
  "env_up =
     \<lparr>urlparse_path = lib_urlparse_path,
      md5_hexdigest = lib_md5_hexdigest,
      http_get = (\<lambda>url i hdrs.
         if hdrs = []
         then Response \<lparr>status_code = 200, content_length = IntHeader 4,
                         chunks = [''abcd''], stream_error = None\<rparr>
         else Response \<lparr>status_code = 416, content_length = NoHeader,
                         chunks = [], stream_error = None\<rparr>),
      open_ok = (\<lambda>path i. True),
      save_ok = (\<lambda>url site. True)\<rparr>"

text \<open>The same server, but the connection of attempt 0 breaks after the chunk \<^verbatim>\<open>ab\<close>.\<close>

definition env_flaky :: env where
  "env_flaky =
     env_up\<lparr>http_get := (\<lambda>url i hdrs.
        if i = 0
        then Response \<lparr>status_code = 200, content_length = IntHeader 4,
                        chunks = [''ab''], stream_error = Some ''Connection broken''\<rparr>
        else http_get env_up url i hdrs)\<rparr>"

text \<open>Every request times out.\<close>

definition env_down :: env where
  "env_down = env_up\<lparr>http_get := (\<lambda>url i hdrs. GetRaises ''Read timed out'')\<rparr>"


text \<open>An empty download directory with no ledger, and one holding the first two bytes of a file.\<close>

definition w_fresh :: world where
  "w_fresh = \<lparr>files = Map.empty, progress = Map.empty, persisted = Missing, trace = []\<rparr>"

definition w_partial :: world where
  "w_partial = w_fresh\<lparr>files := [''/d/a.zim'' \<mapsto> ''ab'']\<rparr>"

definition w_malformed :: world where
  "w_malformed = w_fresh\<lparr>persisted := Malformed\<rparr>"






section \<open>Basic facts\<close>

subsection \<open>\<^verbatim>\<open>rfind\<close> and \<^verbatim>\<open>basename\<close>\<close>

lemma rfind_ge: "- 1 \<le> rfind c s"
  by (induction s) (auto simp: Let_def)

lemma rfind_absent: "rfind c s < 0 \<longleftrightarrow> c \<notin> set s"
  by (induction s) (auto simp: Let_def)

lemma rfind_lt_length: "rfind c s < int (length s)"
  by (induction s) (auto simp: Let_def)

lemma rfind_hit: "0 \<le> rfind c s \<Longrightarrow> s ! nat (rfind c s) = c"
proof (induction s)
  case Nil
  then show ?case by simp
next
  case (Cons x xs)
  show ?case
  proof (cases "0 \<le> rfind c xs")
    case True
    then have "nat (rfind c xs + 1) = Suc (nat (rfind c xs))" by simp
    with True Cons.IH show ?thesis by (simp add: Let_def)
  next
    case False
    with Cons.prems show ?thesis by (simp add: Let_def split: if_splits)
  qed
qed

lemma rfind_last: "c \<notin> set (drop (nat (rfind c s + 1)) s)"
proof (induction s)
  case Nil
  then show ?case by simp
next
  case (Cons x xs)
  show ?case
  proof (cases "0 \<le> rfind c xs")
    case True
    then have "nat (rfind c xs + 1 + 1) = Suc (nat (rfind c xs + 1))" by simp
    with True Cons.IH show ?thesis by (simp add: Let_def)
  next
    case False
    then have "c \<notin> set xs" using rfind_absent [of c xs] by simp
    with False show ?thesis by (simp add: Let_def)
  qed
qed

lemma basename_no_slash: "CHR ''/'' \<notin> set (basename p)"
  unfolding basename_def by (rule rfind_last)

lemma basename_suffix:
  "\<exists>pre. p = pre @ basename p \<and> (pre = [] \<or> last pre = CHR ''/'')"
proof (cases "0 \<le> rfind (CHR ''/'') p")
  case True
  let ?k = "nat (rfind (CHR ''/'') p)"
  have k: "?k < length p" using True rfind_lt_length [of "CHR ''/''" p] by simp
  have eq: "nat (rfind (CHR ''/'') p + 1) = Suc ?k" using True by simp
  have "p = take (Suc ?k) p @ basename p" by (simp add: basename_def eq)
  moreover have "last (take (Suc ?k) p) = CHR ''/''"
    using k rfind_hit [OF True] by (simp add: take_Suc_conv_app_nth)
  ultimately show ?thesis by blast
next
  case False
  then have "rfind (CHR ''/'') p = - 1" using rfind_ge [of "CHR ''/''" p] by simp
  then have "basename p = p" by (simp add: basename_def)
  then show ?thesis by simp
qed

subsection \<open>Fields of the world after each operation\<close>

lemma emit_fields [simp]:
  "trace (emit e w) = trace w @ [e]"
  "progress (emit e w) = progress w"
  "files (emit e w) = files w"
  "persisted (emit e w) = persisted w"
  by (simp_all add: emit_def)

lemma save_progress_fields:
  "fst (save_progress env url site w) =
     (if save_ok env url site then Inr () else Inl (OSError ''cannot write progress file''))"
  "trace (snd (save_progress env url site w)) = trace w @ save_events env url site"
  "progress (snd (save_progress env url site w)) = progress w"
  "files (snd (save_progress env url site w)) = files w"
  "persisted (snd (save_progress env url site w)) =
     (if save_ok env url site then Stored (progress w) else persisted w)"
  by (simp_all add: save_progress_def save_events_def Let_def)

lemma set_progress_fields [simp]:
  "trace (set_progress url status w) = trace w @ [LedgerSet url status]"
  "progress (set_progress url status w) = (progress w)(url \<mapsto> status)"
  "files (set_progress url status w) = files w"
  "persisted (set_progress url status w) = persisted w"
  by (simp_all add: set_progress_def)

lemma open_file_fields [simp]:
  "trace (open_file filepath mode w) = trace w @ [FileOpen filepath mode]"
  "progress (open_file filepath mode w) = progress w"
  "persisted (open_file filepath mode w) = persisted w"
  by (simp_all add: open_file_def)

lemma write_chunks_fields [simp]:
  "trace (write_chunks filepath cs w) =
     trace w @ map (FileWrite filepath) (filter (\<lambda>c. c \<noteq> []) cs)"
  "progress (write_chunks filepath cs w) = progress w"
  "persisted (write_chunks filepath cs w) = persisted w"
  by (induction cs arbitrary: w) simp_all

subsection \<open>New events\<close>

lemma new_events_self [simp]: "new_events w w = []"
  by (simp add: new_events_def)

lemma new_events_eq: "trace w' = trace w @ evs \<Longrightarrow> new_events w w' = evs"
  by (simp add: new_events_def)

lemma new_events_trans:
  assumes "prefix (trace w) (trace w1)" and "prefix (trace w1) (trace w2)"
  shows "new_events w w2 = new_events w w1 @ new_events w1 w2"
  using assms by (auto simp: prefix_def new_events_def)

lemma new_events_emit:
  "prefix (trace w) (trace w1) \<Longrightarrow> new_events w (emit e w1) = new_events w w1 @ [e]"
  by (auto simp: prefix_def new_events_def)

lemma save_events_net [simp]: "filter is_net (save_events env url site) = []"
  by (simp add: save_events_def)



subsection \<open>One attempt\<close>

lemma attempt_trace:
  "trace (snd (attempt env url filepath hdrs mode i w)) =
     trace w @ HttpGet url hdrs #
       (case http_get env url i hdrs of
          GetRaises msg \<Rightarrow> []
        | Response r \<Rightarrow>
            if 400 \<le> status_code r \<and> status_code r < 600 then []
            else if content_length r = BadHeader then []
            else if \<not> open_ok env filepath i then []
            else FileOpen filepath mode #
                 map (FileWrite filepath) (filter (\<lambda>c. c \<noteq> []) (chunks r)) @
                 (case stream_error r of
                    Some msg \<Rightarrow> []
                  | None \<Rightarrow> LedgerSet url ''completed'' # save_events env url AfterSuccess))"
  by (simp add: attempt_def Let_def save_progress_fields split_beta
           split: http_result.split option.split sum.split)

lemma attempt_prefix: "prefix (trace w) (trace (snd (attempt env url filepath hdrs mode i w)))"
  by (simp add: attempt_trace)

lemma attempt_new_events:
  "new_events w (snd (attempt env url filepath hdrs mode i w)) =
     HttpGet url hdrs #
       (case http_get env url i hdrs of
          GetRaises msg \<Rightarrow> []
        | Response r \<Rightarrow>
            if 400 \<le> status_code r \<and> status_code r < 600 then []
            else if content_length r = BadHeader then []
            else if \<not> open_ok env filepath i then []
            else FileOpen filepath mode #
                 map (FileWrite filepath) (filter (\<lambda>c. c \<noteq> []) (chunks r)) @
                 (case stream_error r of
                    Some msg \<Rightarrow> []
                  | None \<Rightarrow> LedgerSet url ''completed'' # save_events env url AfterSuccess))"
  by (rule new_events_eq) (rule attempt_trace)

lemma attempt_result:
  "fst (attempt env url filepath hdrs mode i w) =
     (case http_get env url i hdrs of
        GetRaises msg \<Rightarrow> Retry msg
      | Response r \<Rightarrow>
          if 400 \<le> status_code r \<and> status_code r < 600 then Retry ''HTTPError''
          else if content_length r = BadHeader then Raised (ValueError ''invalid literal for int()'')
          else if \<not> open_ok env filepath i then Raised (OSError ''cannot open target file'')
          else (case stream_error r of
                  Some msg \<Rightarrow> Retry msg
                | None \<Rightarrow> if save_ok env url AfterSuccess then Downloaded
                          else Raised (OSError ''cannot write progress file'')))"
  by (simp add: attempt_def Let_def save_progress_def split_beta
           split: http_result.split option.split sum.split)

lemma attempt_progress:
  "progress (snd (attempt env url filepath hdrs mode i w)) =
     (if request_succeeds env url filepath hdrs i then (progress w)(url \<mapsto> ''completed'')
      else progress w)"
  by (auto simp: attempt_def request_succeeds_def Let_def save_progress_fields split_beta
           split: http_result.split option.split sum.split)

lemma attempt_persisted:
  "persisted (snd (attempt env url filepath hdrs mode i w)) =
     (if request_succeeds env url filepath hdrs i \<and> save_ok env url AfterSuccess
      then Stored ((progress w)(url \<mapsto> ''completed''))
      else persisted w)"
  by (auto simp: attempt_def request_succeeds_def Let_def save_progress_fields split_beta
           split: http_result.split option.split sum.split)

lemma fails_not_succeeds:
  "request_fails env url filepath hdrs i \<Longrightarrow> \<not> request_succeeds env url filepath hdrs i"
  by (auto simp: request_fails_def request_succeeds_def split: http_result.splits)

lemma attempt_fails_result:
  "request_fails env url filepath hdrs i \<Longrightarrow>
     \<exists>msg. fst (attempt env url filepath hdrs mode i w) = Retry msg"
  by (auto simp: attempt_result request_fails_def split: http_result.split option.split)

lemma attempt_succeeds_result:
  "request_succeeds env url filepath hdrs i \<Longrightarrow>
     fst (attempt env url filepath hdrs mode i w) =
       (if save_ok env url AfterSuccess then Downloaded
        else Raised (OSError ''cannot write progress file''))"
  by (auto simp: attempt_result request_succeeds_def split: http_result.split option.split)


lemma attempt_net:
  "filter is_net (new_events w (snd (attempt env url filepath hdrs mode i w))) = [HttpGet url hdrs]"
  by (auto simp: attempt_new_events filter_map comp_def
           split: http_result.split option.split)

lemma attempt_uses_plan:
  "list_all (uses_plan url filepath hdrs mode)
     (new_events w (snd (attempt env url filepath hdrs mode i w)))"
  by (auto simp: attempt_new_events save_events_def list_all_iff
           split: http_result.split option.split)


subsection \<open>The retry loop\<close>

declare attempts.simps(2) [simp del]

lemma attempts_Cons:
  "attempts env url filepath hdrs mode (i # rest) w =
     (case fst (attempt env url filepath hdrs mode i w) of
        Downloaded \<Rightarrow> (Returned, snd (attempt env url filepath hdrs mode i w))
      | Retry msg \<Rightarrow>
          attempts env url filepath hdrs mode rest
            (emit (Sleep (2 ^ i)) (snd (attempt env url filepath hdrs mode i w)))
      | Raised e \<Rightarrow> (Aborted e, snd (attempt env url filepath hdrs mode i w)))"
  by (cases "attempt env url filepath hdrs mode i w")
     (simp add: attempts.simps(2) split: attempt_result.split)

lemma attempts_prefix:
  "prefix (trace w) (trace (snd (attempts env url filepath hdrs mode idxs w)))"
proof (induction idxs arbitrary: w)
  case Nil
  show ?case by simp
next
  case (Cons i rest)
  let ?a = "attempt env url filepath hdrs mode i w"
  have a: "prefix (trace w) (trace (snd ?a))" by (rule attempt_prefix)
  show ?case
  proof (cases "fst ?a")
    case Downloaded
    with a show ?thesis by (simp add: attempts_Cons)
  next
    case (Retry msg)
    have "prefix (trace (emit (Sleep (2 ^ i)) (snd ?a)))
            (trace (snd (attempts env url filepath hdrs mode rest (emit (Sleep (2 ^ i)) (snd ?a)))))"
      by (rule Cons.IH)
    moreover have "prefix (trace w) (trace (emit (Sleep (2 ^ i)) (snd ?a)))"
      using a by (auto simp: prefix_def)
    ultimately show ?thesis using Retry by (auto simp: attempts_Cons simp del: emit_fields)
  next
    case (Raised e)
    with a show ?thesis by (simp add: attempts_Cons)
  qed
qed

lemma attempts_new_events_Cons:
  "new_events w (snd (attempts env url filepath hdrs mode (i # rest) w)) =
     new_events w (snd (attempt env url filepath hdrs mode i w)) @
     (case fst (attempt env url filepath hdrs mode i w) of
        Retry msg \<Rightarrow>
          Sleep (2 ^ i) #
          new_events (emit (Sleep (2 ^ i)) (snd (attempt env url filepath hdrs mode i w)))
            (snd (attempts env url filepath hdrs mode rest
                    (emit (Sleep (2 ^ i)) (snd (attempt env url filepath hdrs mode i w)))))
      | _ \<Rightarrow> [])"
proof -
  let ?a = "attempt env url filepath hdrs mode i w"
  let ?s = "emit (Sleep (2 ^ i)) (snd ?a)"
  have a: "prefix (trace w) (trace (snd ?a))" by (rule attempt_prefix)
  have s: "prefix (trace w) (trace ?s)" using a by (auto simp: prefix_def)
  have r: "prefix (trace ?s) (trace (snd (attempts env url filepath hdrs mode rest ?s)))"
    by (rule attempts_prefix)
  show ?thesis
  proof (cases "fst ?a")
    case (Retry msg)
    have "new_events w (snd (attempts env url filepath hdrs mode rest ?s)) =
            new_events w ?s @ new_events ?s (snd (attempts env url filepath hdrs mode rest ?s))"
      using s r by (rule new_events_trans)
    moreover have "new_events w ?s = new_events w (snd ?a) @ [Sleep (2 ^ i)]"
      using a by (rule new_events_emit)
    ultimately show ?thesis using Retry by (simp add: attempts_Cons)
  qed (simp_all add: attempts_Cons)
qed

lemma attempts_list_all:
  assumes Q_attempt: "\<And>i w. list_all Q (new_events w (snd (attempt env url filepath hdrs mode i w)))"
    and Q_sleep: "\<And>n. Q (Sleep n)"
  shows "list_all Q (new_events w (snd (attempts env url filepath hdrs mode idxs w)))"
proof (induction idxs arbitrary: w)
  case Nil
  show ?case by simp
next
  case (Cons i rest)
  show ?case
    unfolding attempts_new_events_Cons
    using Q_attempt [of w i] Q_sleep Cons.IH
    by (simp split: attempt_result.split)
qed




lemma attempts_fail_prefix:
  assumes "\<forall>i\<in>set pre. request_fails env url filepath hdrs i"
  shows "\<exists>w1. attempts env url filepath hdrs mode (pre @ rest) w =
                 attempts env url filepath hdrs mode rest w1 \<and>
               prefix (trace w) (trace w1) \<and>
               filter is_net (new_events w w1) =
                 concat (map (\<lambda>i. [HttpGet url hdrs, Sleep (2 ^ i)]) pre) \<and>
               progress w1 = progress w \<and> persisted w1 = persisted w"
  using assms
proof (induction pre arbitrary: w)
  case Nil
  show ?case by (rule exI [of _ w]) simp
next
  case (Cons i pre)
  let ?a = "attempt env url filepath hdrs mode i w"
  let ?s = "emit (Sleep (2 ^ i)) (snd ?a)"
  from Cons.prems have fails: "request_fails env url filepath hdrs i" by simp
  then obtain msg where retry: "fst ?a = Retry msg"
    using attempt_fails_result by blast
  have a: "prefix (trace w) (trace (snd ?a))" by (rule attempt_prefix)
  have s: "prefix (trace w) (trace ?s)" using a by (auto simp: prefix_def)
  have net_s: "filter is_net (new_events w ?s) = [HttpGet url hdrs, Sleep (2 ^ i)]"
    using a by (simp add: new_events_emit attempt_net)
  have keep: "progress ?s = progress w" "persisted ?s = persisted w"
    using fails_not_succeeds [OF fails] by (simp_all add: attempt_progress attempt_persisted)
  from Cons.prems have "\<forall>j\<in>set pre. request_fails env url filepath hdrs j" by simp
  from Cons.IH [OF this, of ?s] obtain w1 where
    w1: "attempts env url filepath hdrs mode (pre @ rest) ?s =
           attempts env url filepath hdrs mode rest w1"
      "prefix (trace ?s) (trace w1)"
      "filter is_net (new_events ?s w1) = concat (map (\<lambda>i. [HttpGet url hdrs, Sleep (2 ^ i)]) pre)"
      "progress w1 = progress ?s" "persisted w1 = persisted ?s"
    by blast
  have "attempts env url filepath hdrs mode ((i # pre) @ rest) w =
          attempts env url filepath hdrs mode rest w1"
    using retry w1(1) by (simp add: attempts_Cons)
  moreover have "prefix (trace w) (trace w1)"
    using s w1(2) by (rule prefix_order.trans)
  moreover have "filter is_net (new_events w w1) =
                   concat (map (\<lambda>i. [HttpGet url hdrs, Sleep (2 ^ i)]) (i # pre))"
    using new_events_trans [OF s w1(2)] net_s w1(3) by simp
  moreover have "progress w1 = progress w" "persisted w1 = persisted w"
    using w1(4,5) keep by simp_all
  ultimately show ?case by blast
qed

subsection \<open>One call of \<^verbatim>\<open>download_file\<close>\<close>

lemma except_handler_fields:
  "fst (except_handler env url e w) =
     (if save_ok env url InHandler then Inr (url, Some (str_exn e))
      else Inl (OSError ''cannot write progress file''))"
  "trace (snd (except_handler env url e w)) =
     trace w @ LedgerSet url ''failed'' # save_events env url InHandler"
  "progress (snd (except_handler env url e w)) = (progress w)(url \<mapsto> ''failed'')"
  "files (snd (except_handler env url e w)) = files w"
  "persisted (snd (except_handler env url e w)) =
     (if save_ok env url InHandler then Stored ((progress w)(url \<mapsto> ''failed'')) else persisted w)"
  by (simp_all add: except_handler_def save_progress_def save_events_def Let_def)

lemma download_file_handler:
  "download_file env url download_dir w =
     (case fst (download_try env url download_dir w) of
        Inr r \<Rightarrow> download_try env url download_dir w
      | Inl e \<Rightarrow> except_handler env url e (snd (download_try env url download_dir w)))"
  by (cases "download_try env url download_dir w")
     (simp add: download_file_def split: sum.split)

lemma download_try_unnamed:
  "get_filename_from_url env url = Inl e \<Longrightarrow> download_try env url download_dir w = (Inl e, w)"
  by (simp add: download_try_def)

lemma download_try_named:
  assumes "get_filename_from_url env url = Inr filename"
  shows "download_try env url download_dir w =
     (let filepath = path_join download_dir filename;
          l = attempts env url filepath (fst (plan w url filepath)) (fst (snd (plan w url filepath)))
                [0..<RETRY_COUNT] w;
          s = save_progress env url AfterRetries (set_progress url ''failed'' (snd l))
      in case fst l of
           Returned \<Rightarrow> (Inr (filename, None), snd l)
         | Aborted e \<Rightarrow> (Inl e, snd l)
         | Exhausted \<Rightarrow>
             (case fst s of
                Inl e \<Rightarrow> (Inl e, snd s)
              | Inr u \<Rightarrow> (Inr (filename, Some ''Download failed after retries''), snd s)))"
  using assms
  by (simp add: download_try_def Let_def split_beta split: sum.split loop_result.split)

text \<open>The events of a call, from the events of its retry loop.\<close>

lemma download_file_new_events_unnamed:
  assumes "get_filename_from_url env url = Inl e"
  shows "new_events w (snd (download_file env url download_dir w)) =
           LedgerSet url ''failed'' # save_events env url InHandler"
  by (rule new_events_eq)
     (simp add: download_file_handler download_try_unnamed [OF assms] except_handler_fields)

lemma download_file_new_events_named:
  assumes "get_filename_from_url env url = Inr filename"
    and "l = attempts env url (path_join download_dir filename)
               (fst (plan w url (path_join download_dir filename)))
               (fst (snd (plan w url (path_join download_dir filename)))) [0..<RETRY_COUNT] w"
  shows "new_events w (snd (download_file env url download_dir w)) =
           new_events w (snd l) @
           (case fst l of
              Returned \<Rightarrow> []
            | Aborted e \<Rightarrow> LedgerSet url ''failed'' # save_events env url InHandler
            | Exhausted \<Rightarrow>
                LedgerSet url ''failed'' # save_events env url AfterRetries @
                (if save_ok env url AfterRetries then []
                 else LedgerSet url ''failed'' # save_events env url InHandler))"
proof -
  have "prefix (trace w) (trace (snd l))"
    unfolding assms(2) by (rule attempts_prefix)
  then obtain evs where evs: "trace (snd l) = trace w @ evs"
    by (auto simp: prefix_def)
  then have l: "new_events w (snd l) = evs" by (rule new_events_eq)
  have "trace (snd (download_file env url download_dir w)) =
          trace w @ evs @
           (case fst l of
              Returned \<Rightarrow> []
            | Aborted e \<Rightarrow> LedgerSet url ''failed'' # save_events env url InHandler
            | Exhausted \<Rightarrow>
                LedgerSet url ''failed'' # save_events env url AfterRetries @
                (if save_ok env url AfterRetries then []
                 else LedgerSet url ''failed'' # save_events env url InHandler))"
    using evs
    by (simp add: download_file_handler download_try_named [OF assms(1)] Let_def
          assms(2) [symmetric] except_handler_fields save_progress_fields
          split: loop_result.split)
  then show ?thesis unfolding l by (simp add: new_events_def)
qed


lemma download_file_list_all:
  assumes Q_attempt: "\<And>filename i w'. get_filename_from_url env url = Inr filename \<Longrightarrow>
      list_all Q (new_events w' (snd (attempt env url (path_join download_dir filename)
        (fst (plan w url (path_join download_dir filename)))
        (fst (snd (plan w url (path_join download_dir filename)))) i w')))"
    and Q_other: "\<And>n. Q (Sleep n)" "Q (LedgerSet url ''failed'')" "Q LockAcquire"
      "Q LedgerWrite" "Q LockRelease"
  shows "list_all Q (new_events w (snd (download_file env url download_dir w)))"
proof (cases "get_filename_from_url env url")
  case (Inl e)
  with Q_other show ?thesis
    by (simp add: download_file_new_events_unnamed save_events_def)
next
  case (Inr filename)
  let ?fp = "path_join download_dir filename"
  let ?l = "attempts env url ?fp (fst (plan w url ?fp)) (fst (snd (plan w url ?fp)))
              [0..<RETRY_COUNT] w"
  have "list_all Q (new_events w (snd ?l))"
    using Q_attempt [OF Inr] Q_other(1) by (rule attempts_list_all)
  with Q_other show ?thesis
    by (simp add: download_file_new_events_named [OF Inr refl] save_events_def
          split: loop_result.split)
qed



subsection \<open>A run of tasks\<close>


declare run_tasks.simps(2) [simp del]






section \<open>The pending set\<close>




section \<open>Loading the ledger\<close>

text \<open>
  Claim C6, as the code has it. \<^verbatim>\<open>load_progress\<close> returns the empty mapping when the
  file is missing and the stored mapping when the file parses. A file that does not parse
  is not taken for an empty ledger: the parse error leaves \<^verbatim>\<open>load_progress\<close>, and
  \<^verbatim>\<open>main\<close>, which does not catch it, ends with it before any task is submitted.
\<close>

theorem load_progress_cases:
  "load_progress Missing = Inr Map.empty \<and>
   load_progress (Stored m) = Inr m \<and>
   load_progress Malformed = Inl (JSONDecodeError ''Expecting value'') \<and>
   (persisted w = Malformed \<longrightarrow>
      main env download_dir urls w = (Inl (JSONDecodeError ''Expecting value''), w))"
  by (simp add: load_progress_def main_def)

theorem load_progress_cases_witness:
  "main env_up ''/d'' [''http://h/a.zim''] w_malformed =
     (Inl (JSONDecodeError ''Expecting value''), w_malformed)"
  using load_progress_cases [of Map.empty w_malformed env_up "''/d''" "[''http://h/a.zim'']"]
  by (simp add: w_malformed_def)

text \<open>The claim as stated fails: on a malformed file the result is not the empty mapping.\<close>

theorem load_progress_malformed_counterexample:
  "load_progress Malformed \<noteq> Inr Map.empty"
  by (simp add: load_progress_def)

section \<open>File names and target paths\<close>

text \<open>
  Claim C10. \<^verbatim>\<open>get_filename_from_url\<close> is a function of the URL text (and of the two
  library functions, which are functions of the text as well). For a URL that
  \<^verbatim>\<open>urlparse\<close> accepts with path \<open>p\<close>: when the part of \<open>p\<close> after its last slash is
  not empty, that part is the result; when it is empty, the result is \<^verbatim>\<open>unnamed_file_\<close>
  followed by the first 8 characters of the MD5 hex digest of the URL. The result is
  never empty. \<open>basename p\<close> is the last segment: it holds no slash and what stands before
  it in \<open>p\<close> is empty or ends with a slash. A digest of 32 hex digits gives 8 hex digits.
\<close>

theorem filename_is_last_segment_or_hash:
  assumes "urlparse_path env url = Inr p"
  shows "(basename p \<noteq> [] \<longrightarrow> get_filename_from_url env url = Inr (basename p)) \<and>
    (basename p = [] \<longrightarrow>
       get_filename_from_url env url = Inr (''unnamed_file_'' @ take 8 (md5_hexdigest env url))) \<and>
    (\<exists>name. get_filename_from_url env url = Inr name \<and> name \<noteq> []) \<and>
    CHR ''/'' \<notin> set (basename p) \<and>
    (\<exists>pre. p = pre @ basename p \<and> (pre = [] \<or> last pre = CHR ''/'')) \<and>
    (length (md5_hexdigest env url) = 32 \<and>
     set (md5_hexdigest env url) \<subseteq> set ''0123456789abcdef'' \<longrightarrow>
       length (take 8 (md5_hexdigest env url)) = 8 \<and>
       set (take 8 (md5_hexdigest env url)) \<subseteq> set ''0123456789abcdef'')"
proof (intro conjI impI)
  show "\<exists>name. get_filename_from_url env url = Inr name \<and> name \<noteq> []"
    using assms by (simp add: get_filename_from_url_def Let_def)
next
  show "CHR ''/'' \<notin> set (basename p)" by (rule basename_no_slash)
next
  show "\<exists>pre. p = pre @ basename p \<and> (pre = [] \<or> last pre = CHR ''/'')"
    by (rule basename_suffix)
next
  assume "length (md5_hexdigest env url) = 32 \<and>
     set (md5_hexdigest env url) \<subseteq> set ''0123456789abcdef''"
  then show "set (take 8 (md5_hexdigest env url)) \<subseteq> set ''0123456789abcdef''"
    using set_take_subset [of 8 "md5_hexdigest env url"] by blast
qed (use assms in \<open>simp_all add: get_filename_from_url_def Let_def\<close>)

theorem filename_is_last_segment_or_hash_witness:
  "get_filename_from_url env_up ''http://h/a.zim'' = Inr ''a.zim'' \<and>
   get_filename_from_url env_up ''http://h/'' = Inr ''unnamed_file_3eb97db9'' \<and>
   length (take 8 (md5_hexdigest env_up ''http://h/'')) = 8"
  using filename_is_last_segment_or_hash [of env_up "''http://h/a.zim''" "''/a.zim''"]
    filename_is_last_segment_or_hash [of env_up "''http://h/''" "''/''"]
  by (simp add: env_up_def lib_urlparse_path_def lib_md5_hexdigest_def basename_def Let_def)

lemma filename_no_leading_slash:
  assumes "get_filename_from_url env url = Inr f"
  shows "take 1 f \<noteq> ''/''"
proof (cases "urlparse_path env url")
  case (Inl e)
  with assms show ?thesis by (simp add: get_filename_from_url_def)
next
  case (Inr p)
  show ?thesis
  proof (cases "basename p = []")
    case True
    with Inr assms show ?thesis by (auto simp: get_filename_from_url_def Let_def)
  next
    case False
    with Inr assms have f: "f = basename p" by (simp add: get_filename_from_url_def Let_def)
    with False obtain c cs where cs: "f = c # cs" by (auto simp: neq_Nil_conv)
    then have "c \<in> set (basename p)" using f by simp
    then have "c \<noteq> CHR ''/''" using basename_no_slash [of p] by auto
    with cs show ?thesis by simp
  qed
qed

lemma path_join_inj:
  assumes "take 1 f \<noteq> ''/''" and "take 1 g \<noteq> ''/''"
    and "path_join d f = path_join d g"
  shows "f = g"
  using assms by (simp add: path_join_def split: if_splits)

lemma target_path_eq_iff:
  assumes "get_filename_from_url env u1 = Inr f1" and "get_filename_from_url env u2 = Inr f2"
  shows "target_path env d u1 = target_path env d u2 \<longleftrightarrow> f1 = f2"
  using assms filename_no_leading_slash [OF assms(1)] filename_no_leading_slash [OF assms(2)]
    path_join_inj [of f1 f2 d]
  by (auto simp: target_path_def)

text \<open>
  Claim C9, as the code has it. Two tasks write the same file exactly when their URLs
  have the same derived file name, so the targets of a task list are pairwise different
  exactly when its derived file names are. Nothing removes a URL that the input lists
  twice, nor a second URL with the same last path segment: such tasks are all submitted
  and write the same file.
\<close>

theorem targets_distinct_iff_filenames_distinct:
  assumes "\<forall>u\<in>set us. \<exists>f. get_filename_from_url env u = Inr f"
  shows "(distinct (map (target_path env d) us) \<longleftrightarrow>
          distinct (map (get_filename_from_url env) us)) \<and>
         (\<forall>u1\<in>set us. \<forall>u2\<in>set us.
            target_path env d u1 = target_path env d u2 \<longleftrightarrow>
            get_filename_from_url env u1 = get_filename_from_url env u2)"
proof -
  have eq: "target_path env d u1 = target_path env d u2 \<longleftrightarrow>
            get_filename_from_url env u1 = get_filename_from_url env u2"
    if "u1 \<in> set us" and "u2 \<in> set us" for u1 u2
  proof -
    from that assms obtain f1 f2 where
      f: "get_filename_from_url env u1 = Inr f1" "get_filename_from_url env u2 = Inr f2"
      by blast
    then show ?thesis using target_path_eq_iff [OF f] by simp
  qed
  then have "inj_on (target_path env d) (set us) \<longleftrightarrow>
             inj_on (get_filename_from_url env) (set us)"
    unfolding inj_on_def by blast
  with eq show ?thesis by (simp add: distinct_map)
qed

theorem targets_distinct_iff_filenames_distinct_witness:
  "distinct (map (target_path env_up ''/d'') [''http://h/a.zim'', ''http://h/b.zim'']) \<and>
   target_path env_up ''/d'' ''http://h/a.zim'' = Inr ''/d/a.zim''"
  using targets_distinct_iff_filenames_distinct
    [of "[''http://h/a.zim'', ''http://h/b.zim'']" env_up "''/d''"]
  by (simp add: target_path_def path_join_def get_filename_from_url_def env_up_def
        lib_urlparse_path_def basename_def Let_def)

text \<open>
  The claim as stated fails: with an empty ledger \<^verbatim>\<open>main\<close> submits both entries of a
  list that names one URL twice, and both entries of a list of two URLs with the same
  last segment; either way the two tasks write \<^verbatim>\<open>/d/a.zim\<close>.
\<close>

theorem shared_target_counterexample:
  "remaining_urls [''http://h/a.zim'', ''http://h/a.zim''] Map.empty =
     [''http://h/a.zim'', ''http://h/a.zim''] \<and>
   \<not> distinct (map (target_path env_up ''/d'')
        (remaining_urls [''http://h/a.zim'', ''http://h/a.zim''] Map.empty)) \<and>
   map (target_path env_up ''/d'')
        (remaining_urls [''http://h/a.zim'', ''http://g/a.zim''] Map.empty) =
     [Inr ''/d/a.zim'', Inr ''/d/a.zim'']"
  by (simp add: remaining_urls_def target_path_def path_join_def get_filename_from_url_def
        env_up_def lib_urlparse_path_def basename_def Let_def)

section \<open>Resuming and retrying\<close>

subsection \<open>What a successful attempt leaves in the file\<close>

lemma write_chunks_files:
  "files w filepath = Some content \<Longrightarrow>
     files (write_chunks filepath cs w) filepath = Some (content @ concat cs)"
  by (induction cs arbitrary: w content) auto

lemma attempt_downloaded_file:
  assumes "fst (attempt env url filepath hdrs WB i w) = Downloaded"
  shows "\<exists>r. http_get env url i hdrs = Response r \<and>
             files (snd (attempt env url filepath hdrs WB i w)) filepath = Some (concat (chunks r))"
proof (cases "http_get env url i hdrs")
  case (GetRaises msg)
  with assms show ?thesis by (simp add: attempt_result)
next
  case (Response r)
  have opened: "files (open_file filepath WB (emit (HttpGet url hdrs) w)) filepath = Some []"
    by (simp add: open_file_def)
  from assms Response have ok:
    "\<not> (400 \<le> status_code r \<and> status_code r < 600)" "content_length r \<noteq> BadHeader"
    "open_ok env filepath i" "stream_error r = None"
    by (auto simp: attempt_result split: if_splits option.splits)
  then have "files (snd (attempt env url filepath hdrs WB i w)) filepath =
               Some (concat (chunks r))"
    using Response write_chunks_files [OF opened, of "chunks r"]
    by (auto simp: attempt_def Let_def split_beta save_progress_fields split: sum.split)
  with Response show ?thesis by simp
qed

lemma attempts_returned_file:
  "fst (attempts env url filepath hdrs WB idxs w) = Returned \<Longrightarrow>
     \<exists>i r. i \<in> set idxs \<and> http_get env url i hdrs = Response r \<and>
       files (snd (attempts env url filepath hdrs WB idxs w)) filepath = Some (concat (chunks r))"
proof (induction idxs arbitrary: w)
  case Nil
  then show ?case by simp
next
  case (Cons i rest)
  let ?a = "attempt env url filepath hdrs WB i w"
  show ?case
  proof (cases "fst ?a")
    case Downloaded
    from attempt_downloaded_file [OF this] Downloaded show ?thesis
      by (auto simp: attempts_Cons)
  next
    case (Retry msg)
    with Cons.prems have
      "fst (attempts env url filepath hdrs WB rest (emit (Sleep (2 ^ i)) (snd ?a))) = Returned"
      by (simp add: attempts_Cons)
    from Cons.IH [OF this] Retry show ?thesis
      by (auto simp: attempts_Cons)
  next
    case (Raised e)
    with Cons.prems show ?thesis by (simp add: attempts_Cons)
  qed
qed

text \<open>
  Claim C2, as the code has it. The headers and the file mode are computed once, before
  the loop, from the state at the start of the call; every attempt of the call sends
  those headers and opens the file in that mode, whatever earlier attempts have written.
  No attempt looks at the file again. On the path without resume every attempt truncates
  the file, so a call that returns success leaves in the file the body of one response,
  the successful one, and nothing of the attempts before it.
\<close>

theorem every_attempt_uses_the_first_plan:
  assumes "get_filename_from_url env url = Inr filename"
    and "filepath = path_join download_dir filename"
  shows "list_all
           (uses_plan url filepath (fst (plan w url filepath)) (fst (snd (plan w url filepath))))
           (new_events w (snd (download_file env url download_dir w))) \<and>
         (fst (snd (plan w url filepath)) = WB \<and>
          fst (download_file env url download_dir w) = Inr (filename, None) \<longrightarrow>
            (\<exists>i r. i < RETRY_COUNT \<and>
               http_get env url i (fst (plan w url filepath)) = Response r \<and>
               files (snd (download_file env url download_dir w)) filepath =
                 Some (concat (chunks r))))"
proof (intro conjI impI)
  show "list_all
          (uses_plan url filepath (fst (plan w url filepath)) (fst (snd (plan w url filepath))))
          (new_events w (snd (download_file env url download_dir w)))"
  proof (rule download_file_list_all)
    fix filename' i w'
    assume "get_filename_from_url env url = Inr filename'"
    with assms have "path_join download_dir filename' = filepath" by simp
    then show "list_all
        (uses_plan url filepath (fst (plan w url filepath)) (fst (snd (plan w url filepath))))
        (new_events w' (snd (attempt env url (path_join download_dir filename')
           (fst (plan w url (path_join download_dir filename')))
           (fst (snd (plan w url (path_join download_dir filename')))) i w')))"
      by (simp add: attempt_uses_plan)
  qed simp_all
next
  let ?l = "attempts env url filepath (fst (plan w url filepath)) WB [0..<RETRY_COUNT] w"
  assume a: "fst (snd (plan w url filepath)) = WB \<and>
    fst (download_file env url download_dir w) = Inr (filename, None)"
  then have returned: "fst ?l = Returned"
    using assms
    by (auto simp: download_file_handler download_try_named [OF assms(1)] Let_def
          except_handler_fields save_progress_fields split: loop_result.splits if_splits)
  then have "snd (download_file env url download_dir w) = snd ?l"
    using assms a
    by (simp add: download_file_handler download_try_named [OF assms(1)] Let_def)
  with attempts_returned_file [OF returned]
  show "\<exists>i r. i < RETRY_COUNT \<and>
      http_get env url i (fst (plan w url filepath)) = Response r \<and>
      files (snd (download_file env url download_dir w)) filepath = Some (concat (chunks r))"
    by auto
qed

theorem every_attempt_uses_the_first_plan_witness:
  "list_all (uses_plan ''http://h/a.zim'' ''/d/a.zim'' [] WB)
     (new_events w_fresh (snd (download_file env_flaky ''http://h/a.zim'' ''/d'' w_fresh))) \<and>
   files (snd (download_file env_flaky ''http://h/a.zim'' ''/d'' w_fresh)) ''/d/a.zim'' =
     Some ''abcd''"
proof -
  have name: "get_filename_from_url env_flaky ''http://h/a.zim'' = Inr ''a.zim''"
    by code_simp
  have path: "''/d/a.zim'' = path_join ''/d'' ''a.zim''"
    by code_simp
  have first_plan: "plan w_fresh ''http://h/a.zim'' ''/d/a.zim'' = ([], WB, 0)"
    by (simp add: plan_def w_fresh_def)
  have result: "fst (download_file env_flaky ''http://h/a.zim'' ''/d'' w_fresh) =
      Inr (''a.zim'', None)"
    by code_simp
  have content: "files (snd (download_file env_flaky ''http://h/a.zim'' ''/d'' w_fresh)) ''/d/a.zim'' =
      Some ''abcd''"
    by code_simp
  from every_attempt_uses_the_first_plan [OF name path, of w_fresh] first_plan result content
  show ?thesis by simp
qed

text \<open>
  The claim as stated fails. Attempt 0 writes \<^verbatim>\<open>ab\<close> and then loses the connection,
  so two bytes are on disk when attempt 1 starts. Attempt 1 sends no \<^verbatim>\<open>Range\<close> header
  (the claim has \<^verbatim>\<open>bytes=2-\<close>), opens the file with \<^verbatim>\<open>'wb'\<close>, which discards the two
  bytes, and downloads them again.
\<close>

theorem retry_restarts_counterexample:
  "files (snd (attempt env_flaky ''http://h/a.zim'' ''/d/a.zim'' [] WB 0 w_fresh)) ''/d/a.zim'' =
     Some ''ab'' \<and>
   new_events w_fresh (snd (download_file env_flaky ''http://h/a.zim'' ''/d'' w_fresh)) =
     [HttpGet ''http://h/a.zim'' [], FileOpen ''/d/a.zim'' WB, FileWrite ''/d/a.zim'' ''ab'',
      Sleep 1,
      HttpGet ''http://h/a.zim'' [], FileOpen ''/d/a.zim'' WB, FileWrite ''/d/a.zim'' ''abcd'',
      LedgerSet ''http://h/a.zim'' ''completed'', LockAcquire, LedgerWrite, LockRelease]"
  by code_simp

subsection \<open>Which calls resume\<close>








text \<open>
  Claim C1, at an input where the code departs from it. The ledger has no entry for the
  URL and the target file holds the two bytes \<^verbatim>\<open>ab\<close>. The claim has a request with
  \<^verbatim>\<open>Range: bytes=2-\<close> and the file opened for appending; the code sends no header and
  opens the file with \<^verbatim>\<open>'wb'\<close>. The same happens when the entry is \<^verbatim>\<open>failed\<close>. The
  resume branch is taken only for an entry other than \<^verbatim>\<open>failed\<close>, such as
  \<^verbatim>\<open>completed\<close>.
\<close>

theorem partial_file_is_not_resumed:
  "progress w_partial ''http://h/a.zim'' = None \<and>
   files w_partial ''/d/a.zim'' = Some ''ab'' \<and>
   plan w_partial ''http://h/a.zim'' ''/d/a.zim'' = ([], WB, 0) \<and>
   new_events w_partial (snd (download_file env_up ''http://h/a.zim'' ''/d'' w_partial)) =
     [HttpGet ''http://h/a.zim'' [], FileOpen ''/d/a.zim'' WB, FileWrite ''/d/a.zim'' ''abcd'',
      LedgerSet ''http://h/a.zim'' ''completed'', LockAcquire, LedgerWrite, LockRelease] \<and>
   plan (w_partial\<lparr>progress := [''http://h/a.zim'' \<mapsto> ''failed'']\<rparr>)
     ''http://h/a.zim'' ''/d/a.zim'' = ([], WB, 0) \<and>
   plan (w_partial\<lparr>progress := [''http://h/a.zim'' \<mapsto> ''completed'']\<rparr>)
     ''http://h/a.zim'' ''/d/a.zim'' = ([(''Range'', ''bytes=2-'')], AB, 2)"
  by code_simp

section \<open>The retry policy\<close>

lemma upt_split: "k < n \<Longrightarrow> [0..<n] = [0..<k] @ k # [Suc k..<n]"
  using upt_add_eq_append [of 0 k "n - k"] upt_conv_Cons [of k n] by simp

lemma download_file_net:
  assumes "get_filename_from_url env url = Inr filename"
    and "l = attempts env url (path_join download_dir filename)
               (fst (plan w url (path_join download_dir filename)))
               (fst (snd (plan w url (path_join download_dir filename)))) [0..<RETRY_COUNT] w"
  shows "filter is_net (new_events w (snd (download_file env url download_dir w))) =
           filter is_net (new_events w (snd l))"
  by (simp add: download_file_new_events_named [OF assms] split: loop_result.split)

lemma download_file_exhausted:
  assumes "get_filename_from_url env url = Inr filename"
    and "l = attempts env url (path_join download_dir filename)
               (fst (plan w url (path_join download_dir filename)))
               (fst (snd (plan w url (path_join download_dir filename)))) [0..<RETRY_COUNT] w"
    and "fst l = Exhausted"
  shows "progress (snd (download_file env url download_dir w)) = (progress (snd l))(url \<mapsto> ''failed'')"
    and "save_ok env url AfterRetries \<Longrightarrow>
           fst (download_file env url download_dir w) =
             Inr (filename, Some ''Download failed after retries'') \<and>
           persisted (snd (download_file env url download_dir w)) =
             Stored ((progress (snd l))(url \<mapsto> ''failed''))"
  using assms(3)
  by (simp_all add: download_file_handler download_try_named [OF assms(1)] Let_def
        assms(2) [symmetric] except_handler_fields save_progress_fields)

lemma download_file_returned:
  assumes "get_filename_from_url env url = Inr filename"
    and "l = attempts env url (path_join download_dir filename)
               (fst (plan w url (path_join download_dir filename)))
               (fst (snd (plan w url (path_join download_dir filename)))) [0..<RETRY_COUNT] w"
    and "fst l = Returned"
  shows "download_file env url download_dir w = (Inr (filename, None), snd l)"
  using assms(3)
  by (simp add: download_file_handler download_try_named [OF assms(1)] Let_def
        assms(2) [symmetric])

text \<open>
  Claim C4. Let the first \<open>k\<close> attempts of a call end in a \<^verbatim>\<open>RequestException\<close>, and
  let attempt \<open>k\<close>, if \<open>k\<close> is below \<^verbatim>\<open>RETRY_COUNT\<close>, download the whole body. Then the
  requests and sleeps of the call are: for each failed attempt \<open>i\<close> in order, one
  request followed by a sleep of \<open>2 ^ i\<close>; then, if \<open>k\<close> is below \<^verbatim>\<open>RETRY_COUNT\<close>, one
  more request and nothing after it. So a URL whose every attempt fails gets exactly
  \<^verbatim>\<open>RETRY_COUNT\<close> requests, the dictionary then holds \<^verbatim>\<open>failed\<close> for it, and, the
  write of the ledger succeeding, the call returns the file name with the message of
  exhaustion and the persisted ledger is the dictionary; a successful attempt is the last
  request of the call.
\<close>

theorem retry_schedule:
  assumes name: "get_filename_from_url env url = Inr filename"
    and path: "filepath = path_join download_dir filename"
    and hdrs: "hdrs = fst (plan w url filepath)"
    and k: "k \<le> RETRY_COUNT"
    and fails: "\<forall>i<k. request_fails env url filepath hdrs i"
    and stop: "k < RETRY_COUNT \<longrightarrow> request_succeeds env url filepath hdrs k"
  shows "filter is_net (new_events w (snd (download_file env url download_dir w))) =
           concat (map (\<lambda>i. [HttpGet url hdrs, Sleep (2 ^ i)]) [0..<k]) @
           (if k < RETRY_COUNT then [HttpGet url hdrs] else []) \<and>
         (k = RETRY_COUNT \<longrightarrow>
            progress (snd (download_file env url download_dir w)) url = Some ''failed'' \<and>
            (save_ok env url AfterRetries \<longrightarrow>
               fst (download_file env url download_dir w) =
                 Inr (filename, Some ''Download failed after retries'') \<and>
               persisted (snd (download_file env url download_dir w)) =
                 Stored (progress (snd (download_file env url download_dir w))))) \<and>
         (k < RETRY_COUNT \<and> save_ok env url AfterSuccess \<longrightarrow>
            fst (download_file env url download_dir w) = Inr (filename, None) \<and>
            progress (snd (download_file env url download_dir w)) url = Some ''completed'')"
proof -
  let ?mode = "fst (snd (plan w url filepath))"
  let ?l = "attempts env url filepath hdrs ?mode [0..<RETRY_COUNT] w"
  let ?pairs = "concat (map (\<lambda>i. [HttpGet url hdrs, Sleep (2 ^ i)]) [0..<k])"
  have l: "?l = attempts env url (path_join download_dir filename)
               (fst (plan w url (path_join download_dir filename)))
               (fst (snd (plan w url (path_join download_dir filename)))) [0..<RETRY_COUNT] w"
    by (simp add: path hdrs)
  have pre: "\<forall>i\<in>set [0..<k]. request_fails env url filepath hdrs i"
    using fails by simp
  show ?thesis
  proof (cases "k < RETRY_COUNT")
    case False
    with k have k_eq: "k = RETRY_COUNT" by simp
    from attempts_fail_prefix [OF pre, of ?mode "[]" w] obtain w1 where
      w1: "attempts env url filepath hdrs ?mode [0..<k] w = (Exhausted, w1)"
        "filter is_net (new_events w w1) = ?pairs" "progress w1 = progress w"
      by auto
    then have exhausted: "fst ?l = Exhausted" and snd_l: "snd ?l = w1"
      by (simp_all add: k_eq)
    have "filter is_net (new_events w (snd (download_file env url download_dir w))) = ?pairs"
      using download_file_net [OF name l] snd_l w1(2) by simp
    moreover have "progress (snd (download_file env url download_dir w)) url = Some ''failed''"
      using download_file_exhausted(1) [OF name l exhausted] by simp
    moreover have "fst (download_file env url download_dir w) =
                 Inr (filename, Some ''Download failed after retries'') \<and>
               persisted (snd (download_file env url download_dir w)) =
                 Stored (progress (snd (download_file env url download_dir w)))"
      if "save_ok env url AfterRetries"
      using download_file_exhausted(2) [OF name l exhausted that]
        download_file_exhausted(1) [OF name l exhausted] by simp
    ultimately show ?thesis using False by simp
  next
    case True
    with stop have succeeds: "request_succeeds env url filepath hdrs k" by simp
    have split: "[0..<RETRY_COUNT] = [0..<k] @ k # [Suc k..<RETRY_COUNT]"
      using True by (rule upt_split)
    from attempts_fail_prefix [OF pre, of ?mode "k # [Suc k..<RETRY_COUNT]" w] obtain w1 where
      w1: "?l = attempts env url filepath hdrs ?mode (k # [Suc k..<RETRY_COUNT]) w1"
        "prefix (trace w) (trace w1)"
        "filter is_net (new_events w w1) = ?pairs" "progress w1 = progress w"
      using split by auto
    let ?a = "attempt env url filepath hdrs ?mode k w1"
    have a_result: "fst ?a = (if save_ok env url AfterSuccess then Downloaded
        else Raised (OSError ''cannot write progress file''))"
      using succeeds by (rule attempt_succeeds_result)
    then have snd_l: "snd ?l = snd ?a"
      by (simp add: w1(1) attempts_Cons)
    have "new_events w (snd ?a) = new_events w w1 @ new_events w1 (snd ?a)"
      using w1(2) attempt_prefix by (rule new_events_trans)
    then have "filter is_net (new_events w (snd ?l)) = ?pairs @ [HttpGet url hdrs]"
      by (simp add: snd_l w1(3) attempt_net)
    then have net: "filter is_net (new_events w (snd (download_file env url download_dir w))) =
        ?pairs @ [HttpGet url hdrs]"
      using download_file_net [OF name l] by simp
    have "fst (download_file env url download_dir w) = Inr (filename, None) \<and>
          progress (snd (download_file env url download_dir w)) url = Some ''completed''"
      if "save_ok env url AfterSuccess"
    proof -
      from that a_result have "fst ?l = Returned"
        by (simp add: w1(1) attempts_Cons)
      from download_file_returned [OF name l this] succeeds show ?thesis
        by (simp add: snd_l attempt_progress)
    qed
    with net True show ?thesis by simp
  qed
qed

theorem retry_schedule_witness:
  "filter is_net
     (new_events w_fresh (snd (download_file env_down ''http://h/a.zim'' ''/d'' w_fresh))) =
     [HttpGet ''http://h/a.zim'' [], Sleep 1, HttpGet ''http://h/a.zim'' [], Sleep 2,
      HttpGet ''http://h/a.zim'' [], Sleep 4] \<and>
   fst (download_file env_down ''http://h/a.zim'' ''/d'' w_fresh) =
     Inr (''a.zim'', Some ''Download failed after retries'') \<and>
   progress (snd (download_file env_down ''http://h/a.zim'' ''/d'' w_fresh)) ''http://h/a.zim'' =
     Some ''failed'' \<and>
   filter is_net
     (new_events w_fresh (snd (download_file env_flaky ''http://h/a.zim'' ''/d'' w_fresh))) =
     [HttpGet ''http://h/a.zim'' [], Sleep 1, HttpGet ''http://h/a.zim'' []] \<and>
   fst (download_file env_flaky ''http://h/a.zim'' ''/d'' w_fresh) = Inr (''a.zim'', None)"
proof -
  have name: "get_filename_from_url env_down ''http://h/a.zim'' = Inr ''a.zim''"
    "get_filename_from_url env_flaky ''http://h/a.zim'' = Inr ''a.zim''"
    by code_simp+
  have path: "''/d/a.zim'' = path_join ''/d'' ''a.zim''"
    by code_simp
  have hdrs: "[] = fst (plan w_fresh ''http://h/a.zim'' ''/d/a.zim'')"
    by (simp add: plan_def w_fresh_def)
  have down: "\<forall>i<3. request_fails env_down ''http://h/a.zim'' ''/d/a.zim'' [] i"
    by (simp add: request_fails_def env_down_def)
  have flaky: "\<forall>i<1. request_fails env_flaky ''http://h/a.zim'' ''/d/a.zim'' [] i"
    "request_succeeds env_flaky ''http://h/a.zim'' ''/d/a.zim'' [] 1"
    by (simp_all add: request_fails_def request_succeeds_def env_flaky_def env_up_def)
  have ok: "save_ok env_down ''http://h/a.zim'' AfterRetries"
    "save_ok env_flaky ''http://h/a.zim'' AfterSuccess"
    by (simp_all add: env_down_def env_flaky_def env_up_def)
  have ups: "[0..<3] = [0, 1, 2]" "[0..<1] = [0]"
    by (simp_all add: upt_rec)
  from retry_schedule [OF name(1) path hdrs, of 3] down ok(1)
    retry_schedule [OF name(2) path hdrs, of 1] flaky ok(2)
  show ?thesis
    by (simp add: RETRY_COUNT_def ups)
qed

section \<open>What a call returns\<close>




section \<open>The lock and the ledger\<close>

subsection \<open>Invariants of the interleaved workers\<close>





subsection \<open>The example run\<close>







end
